theory Spec2Isabelle
  imports Complex_Main
begin

section \<open>Piano roll: note store, pointer interaction and playback scheduling\<close>

text \<open>
  A shallow embedding of \<^verbatim>\<open>src/components/enhanced-interactive-piano-roll.tsx\<close>.
  The React component keeps its state in seven \<^verbatim>\<open>useState\<close> cells and one canvas ref;
  every event handler is a function from the state of the render it closes over to the
  next state. Calls into the audio engine (the Tone.js synth and transport) are recorded
  in a log carried by the state, in the order they are issued. Drawing has no effect on
  the state and is left out.

  JavaScript numbers that hold grid cells are integers (they come from \<^verbatim>\<open>Math.floor\<close>);
  pointer offsets and times in seconds are reals. Rounding of floating point is not
  modelled.
\<close>

subsection \<open>Constants and the pitch lattice\<close>

definition NOTES :: "string list" where
  "NOTES = [''C'', ''C#'', ''D'', ''D#'', ''E'', ''F'', ''F#'', ''G'', ''G#'', ''A'', ''A#'', ''B'']"

definition OCTAVES :: nat where
  "OCTAVES = 5"

definition MEASURES :: int where
  "MEASURES = 4"

definition BEATS_PER_MEASURE :: int where
  "BEATS_PER_MEASURE = 4"

definition CELL_SIZE :: real where
  "CELL_SIZE = 25"

text \<open>
  The decimal text of a non-negative integer, as a template literal \<^verbatim>\<open>`${n}`\<close> prints it.
\<close>

definition digit :: "nat \<Rightarrow> char" where
  "digit d = ''0123456789'' ! d"

function toString :: "nat \<Rightarrow> string" where
  "toString n = (if n < 10 then [digit n] else toString (n div 10) @ [digit (n mod 10)])"
  by pat_completeness auto
termination
  by (relation "measure (\<lambda>n. n)") auto

declare toString.simps [simp del]

text \<open>
  \<^verbatim>\<open>Array.from({ length: OCTAVES }, (_, octave) => NOTES.map(note => `${note}${OCTAVES - octave}`)).flat().reverse()\<close>
\<close>

definition allNotes :: "string list" where
  "allNotes =
     rev (concat (map (\<lambda>octave. map (\<lambda>n. n @ toString (OCTAVES - octave)) NOTES) [0..<OCTAVES]))"

text \<open>
  \<^verbatim>\<open>allNotes[rowIndex]\<close>: reading an array outside its bounds gives \<^verbatim>\<open>undefined\<close>,
  which is \<open>None\<close> here. The index is always an integer.
\<close>

definition allNotesAt :: "int \<Rightarrow> string option" where
  "allNotesAt rowIndex =
     (if 0 \<le> rowIndex \<and> rowIndex < int (length allNotes)
      then Some (allNotes ! nat rowIndex) else None)"

subsection \<open>Notes and the component state\<close>

text \<open>
  The interface \<^verbatim>\<open>Note\<close>. The field \<^verbatim>\<open>id\<close> is \<open>id_note\<close> here and the pitch
  \<^verbatim>\<open>note\<close> is \<open>note_name\<close>, optional because the handlers store
  \<^verbatim>\<open>allNotes[rowIndex]\<close> unchecked.
\<close>

record Note =
  id_note :: string
  note_name :: "string option"
  start :: int
  duration :: int
  rowIndex :: int
  colIndex :: int
  selected :: bool

text \<open>
  The numbers \<^verbatim>\<open>Math.max\<close> returns on integers: \<^verbatim>\<open>-Infinity\<close> for no arguments, their
  greatest otherwise.
\<close>

datatype number = NegInfinity | Num real

fun number_max :: "number \<Rightarrow> number \<Rightarrow> number" where
  "number_max NegInfinity b = b"
| "number_max a NegInfinity = a"
| "number_max (Num a) (Num b) = Num (max a b)"

definition Math_max :: "real list \<Rightarrow> number" where
  "Math_max xs = foldl number_max NegInfinity (map Num xs)"

text \<open>The product \<^verbatim>\<open>m * 0.25\<close> of \<^verbatim>\<open>playRecorded\<close>.\<close>

fun times_quarter :: "number \<Rightarrow> number" where
  "times_quarter NegInfinity = NegInfinity"
| "times_quarter (Num a) = Num (a * 0.25)"

text \<open>The calls the component issues to the synth and to \<^verbatim>\<open>Tone.Transport\<close>.\<close>

datatype EngineCall =
    ToneStart
  | TriggerAttack "string option"
  | TriggerRelease "string option"
  | TriggerAttackRelease "string option" real real
  | ReleaseAll
  | TransportCancel
  | TransportStop
  | TransportPosition real
  | TransportSchedule number
  | TransportStart

text \<open>
  The state of \<^verbatim>\<open>EnhancedInteractivePianoRoll\<close>: \<open>synth\<close> is whether the synth state is
  non-null, \<open>notes_state\<close> is the \<^verbatim>\<open>notes\<close> state, \<open>notesCanvasRef\<close> is whether
  \<^verbatim>\<open>notesCanvasRef.current\<close> is non-null, and \<open>engine\<close> is the log of engine calls.
\<close>

record State =
  synth :: bool
  activeNotes :: "string option list"
  notes_state :: "Note list"
  isPlaying :: bool
  isDragging :: bool
  selectedNote :: "Note option"
  numberOfColumns :: int
  notesCanvasRef :: bool
  engine :: "EngineCall list"

definition initialState :: State where
  "initialState =
     \<lparr>synth = False, activeNotes = [], notes_state = [], isPlaying = False, isDragging = False,
      selectedNote = None, numberOfColumns = MEASURES * BEATS_PER_MEASURE * 4,
      notesCanvasRef = False, engine = []\<rparr>"

subsection \<open>Handlers\<close>

definition playNote :: "string option \<Rightarrow> State \<Rightarrow> State" where
  "playNote p s =
     (if synth s
      then s\<lparr>engine := engine s @ [TriggerAttack p], activeNotes := activeNotes s @ [p]\<rparr>
      else s)"

definition stopNote :: "string option \<Rightarrow> State \<Rightarrow> State" where
  "stopNote p s =
     (if synth s
      then s\<lparr>engine := engine s @ [TriggerRelease p],
             activeNotes := filter (\<lambda>n. n \<noteq> p) (activeNotes s)\<rparr>
      else s)"

text \<open>\<^verbatim>\<open>Math.floor(x / CELL_SIZE)\<close>, the cell of a pointer offset.\<close>

definition cellIndex :: "real \<Rightarrow> int" where
  "cellIndex x = \<lfloor>x / CELL_SIZE\<rfloor>"

text \<open>
  The lookup both \<^verbatim>\<open>handleCanvasClick\<close> and \<^verbatim>\<open>handleMouseDown\<close> make:
  \<^verbatim>\<open>notes.find(note => note.rowIndex === rowIndex && colIndex >= note.colIndex && colIndex < note.colIndex + note.duration)\<close>
\<close>

definition clickedNote :: "Note list \<Rightarrow> int \<Rightarrow> int \<Rightarrow> Note option" where
  "clickedNote ns row col =
     find (\<lambda>n. rowIndex n = row \<and> col \<ge> colIndex n \<and> col < colIndex n + duration n) ns"

text \<open>
  \<^verbatim>\<open>handleCanvasClick\<close>; \<open>x\<close> and \<open>y\<close> are the pointer offsets from the canvas corner and
  \<open>now\<close> is what \<^verbatim>\<open>Date.now()\<close> returns.
\<close>

definition handleCanvasClick :: "real \<Rightarrow> real \<Rightarrow> nat \<Rightarrow> State \<Rightarrow> State" where
  "handleCanvasClick x y now s =
     (if \<not> notesCanvasRef s then s
      else
        let col = cellIndex x; row = cellIndex y in
        case clickedNote (notes_state s) row col of
          Some c \<Rightarrow>
            s\<lparr>selectedNote := Some c,
              notes_state := map (\<lambda>n. n\<lparr>selected := (id_note n = id_note c)\<rparr>) (notes_state s)\<rparr>
        | None \<Rightarrow>
            if \<not> isDragging s then
              let newNote = \<lparr>id_note = ''note-'' @ toString now, note_name = allNotesAt row,
                             start = col, duration = 1, rowIndex = row, colIndex = col,
                             selected = True\<rparr>;
                  s1 = s\<lparr>notes_state := map (\<lambda>n. n\<lparr>selected := False\<rparr>) (notes_state s) @ [newNote],
                         selectedNote := Some newNote\<rparr>;
                  s2 = playNote (note_name newNote) s1
              in if col \<ge> numberOfColumns s - 1
                 then s2\<lparr>numberOfColumns := numberOfColumns s2 + 50\<rparr>
                 else s2
            else s)"

definition handleMouseDown :: "real \<Rightarrow> real \<Rightarrow> State \<Rightarrow> State" where
  "handleMouseDown x y s =
     (if \<not> notesCanvasRef s then s
      else
        let col = cellIndex x; row = cellIndex y in
        case clickedNote (notes_state s) row col of
          Some c \<Rightarrow> s\<lparr>selectedNote := Some c, isDragging := True\<rparr>
        | None \<Rightarrow> s)"

definition handleMouseMove :: "real \<Rightarrow> real \<Rightarrow> State \<Rightarrow> State" where
  "handleMouseMove x y s =
     (case selectedNote s of
        Some sel \<Rightarrow>
          if isDragging s \<and> notesCanvasRef s then
            let newColIndex = cellIndex x; newRowIndex = cellIndex y in
            s\<lparr>notes_state :=
                map (\<lambda>n. if id_note n = id_note sel
                          then n\<lparr>colIndex := newColIndex, rowIndex := newRowIndex,
                                 note_name := allNotesAt newRowIndex\<rparr>
                          else n) (notes_state s)\<rparr>
          else s
      | None \<Rightarrow> s)"

definition handleMouseUp :: "State \<Rightarrow> State" where
  "handleMouseUp s = s\<lparr>isDragging := False\<rparr>"

text \<open>
  \<^verbatim>\<open>playRecorded\<close>; \<open>now\<close> is what \<^verbatim>\<open>Tone.now()\<close> returns. The callback passed to
  \<^verbatim>\<open>Tone.Transport.schedule\<close> is \<open>scheduledCallback\<close> below.
\<close>

definition playRecorded :: "real \<Rightarrow> State \<Rightarrow> State" where
  "playRecorded now s =
     (if synth s \<and> \<not> isPlaying s then
        let maxDuration =
              times_quarter (Math_max (map (\<lambda>n. real_of_int (start n + duration n)) (notes_state s)))
        in s\<lparr>isPlaying := True,
             engine := engine s
               @ [TransportCancel, TransportStop, TransportPosition 0]
               @ map (\<lambda>n. TriggerAttackRelease (note_name n) (real_of_int (duration n) * 0.25)
                             (now + real_of_int (start n) * 0.25)) (notes_state s)
               @ [TransportSchedule maxDuration, TransportStart]\<rparr>
      else s)"

definition scheduledCallback :: "State \<Rightarrow> State" where
  "scheduledCallback s = s\<lparr>isPlaying := False\<rparr>"

definition stopPlayback :: "State \<Rightarrow> State" where
  "stopPlayback s =
     s\<lparr>isPlaying := False,
       engine := engine s @ [TransportStop, TransportCancel] @ (if synth s then [ReleaseAll] else [])\<rparr>"

subsection \<open>Events\<close>

text \<open>
  The events the rendered component reacts to, and the handler the JSX binds to each:
  the canvas has \<^verbatim>\<open>onClick={handleCanvasClick}\<close>, \<^verbatim>\<open>onMouseDown={handleMouseDown}\<close>,
  \<^verbatim>\<open>onMouseMove={handleMouseMove}\<close> and both \<^verbatim>\<open>onMouseUp\<close> and \<^verbatim>\<open>onMouseLeave\<close> bound to
  \<^verbatim>\<open>handleMouseUp\<close>; the play button calls \<^verbatim>\<open>isPlaying ? stopPlayback : playRecorded\<close>;
  the piano keys call \<^verbatim>\<open>playNote\<close> and \<^verbatim>\<open>stopNote\<close>. \<open>Mount\<close> is the first commit, which
  attaches the canvas ref and runs the effect that creates the synth.
\<close>

datatype Event =
    Mount
  | CanvasClick real real nat
  | CanvasMouseDown real real
  | CanvasMouseMove real real
  | CanvasMouseUp
  | CanvasMouseLeave
  | StartAudioClick
  | PlayButtonClick real
  | TransportCallback
  | PianoMouseDown string
  | PianoMouseUp string
  | PianoMouseLeave string

fun dispatch :: "State \<Rightarrow> Event \<Rightarrow> State" where
  "dispatch s Mount = s\<lparr>notesCanvasRef := True, synth := True\<rparr>"
| "dispatch s (CanvasClick x y now) = handleCanvasClick x y now s"
| "dispatch s (CanvasMouseDown x y) = handleMouseDown x y s"
| "dispatch s (CanvasMouseMove x y) = handleMouseMove x y s"
| "dispatch s CanvasMouseUp = handleMouseUp s"
| "dispatch s CanvasMouseLeave = handleMouseUp s"
| "dispatch s StartAudioClick = s\<lparr>engine := engine s @ [ToneStart]\<rparr>"
| "dispatch s (PlayButtonClick now) = (if isPlaying s then stopPlayback s else playRecorded now s)"
| "dispatch s TransportCallback = scheduledCallback s"
| "dispatch s (PianoMouseDown p) = playNote (Some p) s"
| "dispatch s (PianoMouseUp p) = stopNote (Some p) s"
| "dispatch s (PianoMouseLeave p) = stopNote (Some p) s"

text \<open>The state after a sequence of events, from the state of the first render.\<close>

definition run :: "Event list \<Rightarrow> State" where
  "run es = foldl dispatch initialState es"

text \<open>The values of \<^verbatim>\<open>Date.now()\<close> at the clicks of a session, in order.\<close>

fun clickTimes :: "Event list \<Rightarrow> nat list" where
  "clickTimes [] = []"
| "clickTimes (CanvasClick x y now # es) = now # clickTimes es"
| "clickTimes (e # es) = clickTimes es"

subsection \<open>Reading the engine log\<close>

fun isAttackRelease :: "EngineCall \<Rightarrow> bool" where
  "isAttackRelease (TriggerAttackRelease p d t) = True"
| "isAttackRelease c = False"

fun isSchedule :: "EngineCall \<Rightarrow> bool" where
  "isSchedule (TransportSchedule t) = True"
| "isSchedule c = False"

section \<open>Evaluation\<close>

text \<open>The pitch lattice, computed once: sixty names, from \<open>B1\<close> in row 0 to \<open>C5\<close> in row 59.\<close>

lemma allNotes_eq:
  "allNotes =
    [''B1'', ''A#1'', ''A1'', ''G#1'', ''G1'', ''F#1'', ''F1'', ''E1'', ''D#1'', ''D1'', ''C#1'', ''C1'',
     ''B2'', ''A#2'', ''A2'', ''G#2'', ''G2'', ''F#2'', ''F2'', ''E2'', ''D#2'', ''D2'', ''C#2'', ''C2'',
     ''B3'', ''A#3'', ''A3'', ''G#3'', ''G3'', ''F#3'', ''F3'', ''E3'', ''D#3'', ''D3'', ''C#3'', ''C3'',
     ''B4'', ''A#4'', ''A4'', ''G#4'', ''G4'', ''F#4'', ''F4'', ''E4'', ''D#4'', ''D4'', ''C#4'', ''C4'',
     ''B5'', ''A#5'', ''A5'', ''G#5'', ''G5'', ''F#5'', ''F5'', ''E5'', ''D#5'', ''D5'', ''C#5'', ''C5'']"
  by (simp add: allNotes_def NOTES_def OCTAVES_def toString.simps digit_def upt_conv_Cons)

lemma length_allNotes: "length allNotes = 60"
  by (simp add: allNotes_eq)

lemma allNotesAt_0: "allNotesAt 0 = Some ''B1''"
  by (simp add: allNotesAt_def allNotes_eq)

lemma allNotesAt_1: "allNotesAt 1 = Some ''A#1''"
  by (simp add: allNotesAt_def allNotes_eq)


text \<open>Decimal texts of different numbers differ.\<close>

lemma digit_inj: "a < 10 \<Longrightarrow> b < 10 \<Longrightarrow> digit a = digit b \<Longrightarrow> a = b"
proof -
  assume a: "a < 10" and b: "b < 10" and eq: "digit a = digit b"
  have d: "distinct ''0123456789''"
    by simp
  have "length ''0123456789'' = 10"
    by simp
  with a b d eq show "a = b"
    unfolding digit_def by (simp only: nth_eq_iff_index_eq)
qed

lemma toString_nonempty: "toString n \<noteq> []"
  by (subst toString.simps) simp

lemma toString_inj: "toString m = toString n \<Longrightarrow> m = n"
proof (induction m arbitrary: n rule: toString.induct)
  case (1 m)
  show ?case
  proof (cases "m < 10")
    case small_m: True
    show ?thesis
    proof (cases "n < 10")
      case True
      with small_m "1.prems" have "digit m = digit n"
        by (simp add: toString.simps)
      with small_m True show ?thesis
        by (rule digit_inj)
    next
      case False
      with small_m "1.prems" have "toString (n div 10) = []"
        by (simp add: toString.simps [of m] toString.simps [of n])
      then show ?thesis
        by (simp add: toString_nonempty)
    qed
  next
    case big_m: False
    show ?thesis
    proof (cases "n < 10")
      case True
      with big_m "1.prems" have "toString (m div 10) = []"
        by (simp add: toString.simps [of m] toString.simps [of n])
      then show ?thesis
        by (simp add: toString_nonempty)
    next
      case False
      with big_m "1.prems"
      have eq: "toString (m div 10) = toString (n div 10)"
        and dg: "digit (m mod 10) = digit (n mod 10)"
        by (simp_all add: toString.simps [of m] toString.simps [of n])
      from big_m eq have "m div 10 = n div 10"
        by (rule "1.IH")
      moreover from dg have "m mod 10 = n mod 10"
        by (rule digit_inj [rotated 2]) simp_all
      ultimately show ?thesis
        by (metis div_mult_mod_eq)
    qed
  qed
qed

text \<open>Cells of some pointer offsets, and the offsets that lie inside the canvas, whose
  height is \<^verbatim>\<open>allNotes.length * CELL_SIZE\<close>.\<close>

lemma cellIndex_numeral [simp]:
  "cellIndex 0 = 0" "cellIndex 25 = 1" "cellIndex 75 = 3" "cellIndex 250 = 10" "cellIndex (- 1) = - 1"
  by (simp_all add: cellIndex_def CELL_SIZE_def)

lemma cellIndex_1500: "cellIndex 1500 = 60"
  by (simp add: cellIndex_def CELL_SIZE_def)


lemma cellIndex_in_canvas:
  "0 \<le> y \<and> y < real (length allNotes) * CELL_SIZE \<longleftrightarrow>
   0 \<le> cellIndex y \<and> cellIndex y < int (length allNotes)"
proof -
  have "cellIndex y < 60 \<longleftrightarrow> y / 25 < 60"
    unfolding cellIndex_def CELL_SIZE_def using floor_less_iff [of "y / 25" 60] by simp
  moreover have "0 \<le> cellIndex y \<longleftrightarrow> 0 \<le> y / 25"
    unfolding cellIndex_def CELL_SIZE_def using zero_le_floor [of "y / 25"] by simp
  ultimately show ?thesis
    by (simp add: length_allNotes CELL_SIZE_def)
qed

text \<open>Sessions used as examples below: the mounted component, one note placed, two
  notes placed, the first of the two grabbed by a pointer-down, two notes placed
  within the same millisecond, and the first of these grabbed by a pointer-down.\<close>

lemma run_snoc: "run (es @ [e]) = dispatch (run es) e"
  by (simp add: run_def)

lemma run_Nil: "notes_state (run []) = []"
  by (simp add: run_def initialState_def)

lemma run_Mount:
  "run [Mount] =
    \<lparr>synth = True, activeNotes = [], notes_state = [], isPlaying = False, isDragging = False,
     selectedNote = None, numberOfColumns = 64, notesCanvasRef = True, engine = []\<rparr>"
  by (simp add: run_def initialState_def MEASURES_def BEATS_PER_MEASURE_def)

lemma run_one_note:
  "run [Mount, CanvasClick 75 0 3] =
    \<lparr>synth = True, activeNotes = [Some ''B1''],
     notes_state = [\<lparr>id_note = ''note-3'', note_name = Some ''B1'', start = 3, duration = 1,
                      rowIndex = 0, colIndex = 3, selected = True\<rparr>],
     isPlaying = False, isDragging = False,
     selectedNote = Some \<lparr>id_note = ''note-3'', note_name = Some ''B1'', start = 3, duration = 1,
                      rowIndex = 0, colIndex = 3, selected = True\<rparr>,
     numberOfColumns = 64, notesCanvasRef = True, engine = [TriggerAttack (Some ''B1'')]\<rparr>"
  by (simp add: run_def initialState_def handleCanvasClick_def clickedNote_def playNote_def
      allNotesAt_0 toString.simps digit_def MEASURES_def BEATS_PER_MEASURE_def Let_def)

lemma run_two_notes:
  "run [Mount, CanvasClick 0 0 3, CanvasClick 0 25 7] =
    \<lparr>synth = True, activeNotes = [Some ''B1'', Some ''A#1''],
     notes_state = [\<lparr>id_note = ''note-3'', note_name = Some ''B1'', start = 0, duration = 1,
                      rowIndex = 0, colIndex = 0, selected = False\<rparr>,
                    \<lparr>id_note = ''note-7'', note_name = Some ''A#1'', start = 0, duration = 1,
                      rowIndex = 1, colIndex = 0, selected = True\<rparr>],
     isPlaying = False, isDragging = False,
     selectedNote = Some \<lparr>id_note = ''note-7'', note_name = Some ''A#1'', start = 0, duration = 1,
                      rowIndex = 1, colIndex = 0, selected = True\<rparr>,
     numberOfColumns = 64, notesCanvasRef = True,
     engine = [TriggerAttack (Some ''B1''), TriggerAttack (Some ''A#1'')]\<rparr>"
  by (simp add: run_def initialState_def handleCanvasClick_def clickedNote_def playNote_def
      allNotesAt_0 allNotesAt_1 toString.simps digit_def MEASURES_def BEATS_PER_MEASURE_def Let_def)

lemma run_dragging:
  "run [Mount, CanvasClick 0 0 3, CanvasClick 0 25 7, CanvasMouseDown 0 0] =
    \<lparr>synth = True, activeNotes = [Some ''B1'', Some ''A#1''],
     notes_state = [\<lparr>id_note = ''note-3'', note_name = Some ''B1'', start = 0, duration = 1,
                      rowIndex = 0, colIndex = 0, selected = False\<rparr>,
                    \<lparr>id_note = ''note-7'', note_name = Some ''A#1'', start = 0, duration = 1,
                      rowIndex = 1, colIndex = 0, selected = True\<rparr>],
     isPlaying = False, isDragging = True,
     selectedNote = Some \<lparr>id_note = ''note-3'', note_name = Some ''B1'', start = 0, duration = 1,
                      rowIndex = 0, colIndex = 0, selected = False\<rparr>,
     numberOfColumns = 64, notesCanvasRef = True,
     engine = [TriggerAttack (Some ''B1''), TriggerAttack (Some ''A#1'')]\<rparr>"
proof -
  have "run [Mount, CanvasClick 0 0 3, CanvasClick 0 25 7, CanvasMouseDown 0 0]
      = handleMouseDown 0 0 (run [Mount, CanvasClick 0 0 3, CanvasClick 0 25 7])"
    using run_snoc [of "[Mount, CanvasClick 0 0 3, CanvasClick 0 25 7]" "CanvasMouseDown 0 0"]
    by simp
  then show ?thesis
    by (simp add: run_two_notes handleMouseDown_def clickedNote_def)
qed

lemma run_equal_ids:
  "run [Mount, CanvasClick 0 0 3, CanvasClick 0 25 3] =
    \<lparr>synth = True, activeNotes = [Some ''B1'', Some ''A#1''],
     notes_state = [\<lparr>id_note = ''note-3'', note_name = Some ''B1'', start = 0, duration = 1,
                      rowIndex = 0, colIndex = 0, selected = False\<rparr>,
                    \<lparr>id_note = ''note-3'', note_name = Some ''A#1'', start = 0, duration = 1,
                      rowIndex = 1, colIndex = 0, selected = True\<rparr>],
     isPlaying = False, isDragging = False,
     selectedNote = Some \<lparr>id_note = ''note-3'', note_name = Some ''A#1'', start = 0, duration = 1,
                      rowIndex = 1, colIndex = 0, selected = True\<rparr>,
     numberOfColumns = 64, notesCanvasRef = True,
     engine = [TriggerAttack (Some ''B1''), TriggerAttack (Some ''A#1'')]\<rparr>"
  by (simp add: run_def initialState_def handleCanvasClick_def clickedNote_def playNote_def
      allNotesAt_0 allNotesAt_1 toString.simps digit_def MEASURES_def BEATS_PER_MEASURE_def Let_def)


section \<open>The store under each handler\<close>

text \<open>What a click does to the store, branch by branch, and what the other handlers do.\<close>

lemma notes_click_hit:
  "notesCanvasRef s \<Longrightarrow> clickedNote (notes_state s) (cellIndex y) (cellIndex x) = Some c \<Longrightarrow>
   notes_state (handleCanvasClick x y now s)
     = map (\<lambda>n. n\<lparr>selected := (id_note n = id_note c)\<rparr>) (notes_state s)"
  by (simp add: handleCanvasClick_def)

lemma notes_click_miss:
  "notesCanvasRef s \<Longrightarrow> \<not> isDragging s \<Longrightarrow>
   clickedNote (notes_state s) (cellIndex y) (cellIndex x) = None \<Longrightarrow>
   notes_state (handleCanvasClick x y now s)
     = map (\<lambda>n. n\<lparr>selected := False\<rparr>) (notes_state s)
       @ [\<lparr>id_note = ''note-'' @ toString now, note_name = allNotesAt (cellIndex y),
           start = cellIndex x, duration = 1, rowIndex = cellIndex y, colIndex = cellIndex x,
           selected = True\<rparr>]"
  by (simp add: handleCanvasClick_def playNote_def Let_def)

lemma notes_click_ignored:
  "\<not> notesCanvasRef s \<or> (isDragging s \<and> clickedNote (notes_state s) (cellIndex y) (cellIndex x) = None) \<Longrightarrow>
   handleCanvasClick x y now s = s"
  by (auto simp: handleCanvasClick_def)

lemma notes_move:
  "notes_state (handleMouseMove x y s) = notes_state s
   \<or> (\<exists>a. notes_state (handleMouseMove x y s)
        = map (\<lambda>n. if id_note n = a
                     then n\<lparr>colIndex := cellIndex x, rowIndex := cellIndex y,
                            note_name := allNotesAt (cellIndex y)\<rparr>
                     else n) (notes_state s))"
  by (cases "selectedNote s") (auto simp: handleMouseMove_def Let_def)


lemma notes_other:
  "notes_state (handleMouseDown x y s) = notes_state s"
  "notes_state (handleMouseUp s) = notes_state s"
  "notes_state (playRecorded t s) = notes_state s"
  "notes_state (stopPlayback s) = notes_state s"
  "notes_state (scheduledCallback s) = notes_state s"
  "notes_state (playNote p s) = notes_state s"
  "notes_state (stopNote p s) = notes_state s"
  by (simp_all add: handleMouseDown_def handleMouseUp_def playRecorded_def stopPlayback_def
      scheduledCallback_def playNote_def stopNote_def Let_def split: option.split)

text \<open>Ids and selected flags under the maps the handlers apply.\<close>

lemma filter_key_le_1:
  "distinct (map f xs) \<Longrightarrow> length (filter (\<lambda>x. f x = a) xs) \<le> 1"
proof (induction xs)
  case Nil
  then show ?case by simp
next
  case (Cons x xs)
  show ?case
  proof (cases "f x = a")
    case True
    from Cons.prems have "f x \<notin> f ` set xs"
      by simp
    with True have "\<forall>z \<in> set xs. f z \<noteq> a"
      by blast
    then have "filter (\<lambda>x. f x = a) xs = []"
      by (simp add: filter_empty_conv)
    with True show ?thesis by simp
  next
    case False
    with Cons show ?thesis by simp
  qed
qed

lemma filter_selected_select:
  "filter selected (map (\<lambda>n. n\<lparr>selected := (id_note n = a)\<rparr>) ns)
   = map (\<lambda>n. n\<lparr>selected := (id_note n = a)\<rparr>) (filter (\<lambda>n. id_note n = a) ns)"
  by (induction ns) simp_all

lemma filter_selected_deselect:
  "filter selected (map (\<lambda>n. n\<lparr>selected := False\<rparr>) ns) = []"
  by (induction ns) simp_all

lemma filter_selected_move:
  "length (filter selected
      (map (\<lambda>n. if id_note n = a then n\<lparr>colIndex := c, rowIndex := r, note_name := p\<rparr> else n) ns))
   = length (filter selected ns)"
  by (induction ns) simp_all

lemma ids_select:
  "map id_note (map (\<lambda>n. n\<lparr>selected := b n\<rparr>) ns) = map id_note ns"
  by (simp add: comp_def)

lemma ids_move:
  "map id_note
      (map (\<lambda>n. if id_note n = a then n\<lparr>colIndex := c, rowIndex := r, note_name := p\<rparr> else n) ns)
   = map id_note ns"
  by (induction ns) simp_all

text \<open>No handler removes a note or changes an id: a step keeps the ids of the store, or
  adds the id of a new note at the end.\<close>

lemma ids_step:
  "map id_note (notes_state (dispatch s e)) = map id_note (notes_state s)
   \<or> (\<exists>x y now. e = CanvasClick x y now
        \<and> map id_note (notes_state (dispatch s e))
            = map id_note (notes_state s) @ [''note-'' @ toString now])"
proof (cases e)
  case (CanvasClick x y now)
  show ?thesis
  proof (cases "clickedNote (notes_state s) (cellIndex y) (cellIndex x)")
    case None
    then show ?thesis
      using CanvasClick notes_click_miss [of s y x now] notes_click_ignored [of s y x now]
      by (cases "notesCanvasRef s"; cases "isDragging s") (auto simp: comp_def)
  next
    case (Some c)
    then show ?thesis
      using CanvasClick notes_click_hit [of s y x c now] notes_click_ignored [of s y x now]
      by (cases "notesCanvasRef s") (auto simp: comp_def)
  qed
next
  case (CanvasMouseMove x y)
  from notes_move [of x y s]
  have "map id_note (notes_state (handleMouseMove x y s)) = map id_note (notes_state s)"
    by (elim disjE exE) (simp_all only: ids_move)
  with CanvasMouseMove show ?thesis
    by simp
qed (simp_all add: notes_other)

lemma clickTimes_snoc:
  "clickTimes (es @ [e]) = clickTimes es @ (case e of CanvasClick x y now \<Rightarrow> [now] | _ \<Rightarrow> [])"
  by (induction es rule: clickTimes.induct) (simp_all split: Event.split)

text \<open>If no two clicks of a session see the same \<^verbatim>\<open>Date.now()\<close>, the ids are distinct.\<close>

lemma ids_run:
  "distinct (clickTimes es) \<Longrightarrow>
   distinct (map id_note (notes_state (run es)))
   \<and> set (map id_note (notes_state (run es))) \<subseteq> (\<lambda>t. ''note-'' @ toString t) ` set (clickTimes es)"
proof (induction es rule: rev_induct)
  case Nil
  then show ?case by (simp add: run_Nil)
next
  case (snoc e es)
  from snoc.prems have dt: "distinct (clickTimes es)"
    by (simp add: clickTimes_snoc)
  note IH = snoc.IH [OF dt]
  from ids_step [of "run es" e] show ?case
  proof (elim disjE exE conjE)
    assume "map id_note (notes_state (dispatch (run es) e)) = map id_note (notes_state (run es))"
    with IH show ?thesis
      unfolding run_snoc clickTimes_snoc by auto
  next
    fix x y now
    assume e: "e = CanvasClick x y now"
      and eq: "map id_note (notes_state (dispatch (run es) e))
            = map id_note (notes_state (run es)) @ [''note-'' @ toString now]"
    from snoc.prems e have fresh: "now \<notin> set (clickTimes es)"
      by (simp add: clickTimes_snoc)
    have "''note-'' @ toString now \<notin> (\<lambda>t. ''note-'' @ toString t) ` set (clickTimes es)"
    proof
      assume "''note-'' @ toString now \<in> (\<lambda>t. ''note-'' @ toString t) ` set (clickTimes es)"
      then obtain t where t: "t \<in> set (clickTimes es)" and "toString now = toString t"
        by auto
      then have "now = t"
        by (simp add: toString_inj)
      with t fresh show False
        by simp
    qed
    moreover have ids: "map id_note (notes_state (run (es @ [e])))
        = map id_note (notes_state (run es)) @ [''note-'' @ toString now]"
      using eq by (simp add: run_snoc)
    moreover have "clickTimes (es @ [e]) = clickTimes es @ [now]"
      by (simp add: clickTimes_snoc e)
    ultimately show ?thesis
      using IH by (simp only: ids) auto
  qed
qed

text \<open>One step keeps at most one note selected, if the ids after the step are distinct.\<close>

lemma selected_step:
  assumes d: "distinct (map id_note (notes_state (dispatch s e)))"
    and one: "length (filter selected (notes_state s)) \<le> 1"
  shows "length (filter selected (notes_state (dispatch s e))) \<le> 1"
proof (cases e)
  case (CanvasClick x y now)
  show ?thesis
  proof (cases "clickedNote (notes_state s) (cellIndex y) (cellIndex x)")
    case None
    then show ?thesis
      using CanvasClick one notes_click_miss [of s y x now] notes_click_ignored [of s y x now]
      by (cases "notesCanvasRef s"; cases "isDragging s") (auto simp: filter_selected_deselect)
  next
    case (Some c)
    show ?thesis
    proof (cases "notesCanvasRef s")
      case True
      have eq: "notes_state (dispatch s e)
          = map (\<lambda>n. n\<lparr>selected := (id_note n = id_note c)\<rparr>) (notes_state s)"
        using CanvasClick True Some by (simp add: notes_click_hit)
      from d have "distinct (map id_note (notes_state s))"
        unfolding eq by (simp only: ids_select)
      then have "length (filter (\<lambda>n. id_note n = id_note c) (notes_state s)) \<le> 1"
        by (rule filter_key_le_1)
      then show ?thesis
        unfolding eq by (simp add: filter_selected_select)
    next
      case False
      then show ?thesis
        using CanvasClick one notes_click_ignored [of s y x now] by simp
    qed
  qed
next
  case (CanvasMouseMove x y)
  from notes_move [of x y s]
  have "length (filter selected (notes_state (handleMouseMove x y s)))
      = length (filter selected (notes_state s))"
    by (elim disjE exE) (simp_all only: filter_selected_move)
  with CanvasMouseMove one show ?thesis
    by simp
qed (use one in \<open>simp_all add: notes_other\<close>)

lemma selected_run:
  "distinct (map id_note (notes_state (run es))) \<Longrightarrow>
   length (filter selected (notes_state (run es))) \<le> 1"
proof (induction es rule: rev_induct)
  case Nil
  then show ?case by (simp add: run_Nil)
next
  case (snoc e es)
  obtain zs where zs: "map id_note (notes_state (dispatch (run es) e))
      = map id_note (notes_state (run es)) @ zs"
    using ids_step [of "run es" e] by auto
  from snoc.prems have d: "distinct (map id_note (notes_state (dispatch (run es) e)))"
    by (simp add: run_snoc)
  then have "distinct (map id_note (notes_state (run es)))"
    unfolding zs by simp
  then have "length (filter selected (notes_state (run es))) \<le> 1"
    by (rule snoc.IH)
  with d have "length (filter selected (notes_state (dispatch (run es) e))) \<le> 1"
    by (rule selected_step)
  then show ?case
    by (simp add: run_snoc)
qed

text \<open>Dragging is only ever entered together with a selected-note reference, and no
  handler resets the reference.\<close>

lemma dragging_step:
  assumes "isDragging s \<longrightarrow> selectedNote s \<noteq> None"
  shows "isDragging (dispatch s e) \<longrightarrow> selectedNote (dispatch s e) \<noteq> None"
proof (cases e)
  case (CanvasClick x y now)
  with assms show ?thesis
    by (simp add: handleCanvasClick_def playNote_def Let_def split: option.split)
next
  case (CanvasMouseDown x y)
  with assms show ?thesis
    by (simp add: handleMouseDown_def Let_def split: option.split)
next
  case (CanvasMouseMove x y)
  with assms show ?thesis
    by (auto simp: handleMouseMove_def Let_def split: option.split)
next
  case (PlayButtonClick now)
  with assms show ?thesis
    by (simp add: playRecorded_def stopPlayback_def Let_def)
qed (use assms in \<open>simp_all add: handleMouseUp_def scheduledCallback_def playNote_def stopNote_def\<close>)

lemma dragging_run: "isDragging (run es) \<longrightarrow> selectedNote (run es) \<noteq> None"
proof (induction es rule: rev_induct)
  case Nil
  show ?case by (simp add: run_def initialState_def)
next
  case (snoc e es)
  then show ?case
    unfolding run_snoc by (rule dragging_step)
qed

section \<open>Properties\<close>

subsection \<open>Hit testing\<close>

text \<open>
  Claim C9. The lookup returns a note if and only if some note of the store lies in the
  given row with \<open>colIndex \<le> col < colIndex + duration\<close>, and the note it returns is
  the first such note in store order: it matches, and no note before it does.
\<close>

theorem clickedNote_first_match:
  "(clickedNote ns row col \<noteq> None \<longleftrightarrow>
      (\<exists>n \<in> set ns. rowIndex n = row \<and> colIndex n \<le> col \<and> col < colIndex n + duration n))
   \<and> (clickedNote ns row col = Some m \<longleftrightarrow>
      (\<exists>i < length ns. ns ! i = m
         \<and> rowIndex m = row \<and> colIndex m \<le> col \<and> col < colIndex m + duration m
         \<and> (\<forall>j < i. \<not> (rowIndex (ns ! j) = row \<and> colIndex (ns ! j) \<le> col
                         \<and> col < colIndex (ns ! j) + duration (ns ! j)))))"
proof (intro conjI)
  show "clickedNote ns row col \<noteq> None \<longleftrightarrow>
      (\<exists>n \<in> set ns. rowIndex n = row \<and> colIndex n \<le> col \<and> col < colIndex n + duration n)"
    unfolding clickedNote_def by (auto simp: find_None_iff)
next
  show "clickedNote ns row col = Some m \<longleftrightarrow>
      (\<exists>i < length ns. ns ! i = m
         \<and> rowIndex m = row \<and> colIndex m \<le> col \<and> col < colIndex m + duration m
         \<and> (\<forall>j < i. \<not> (rowIndex (ns ! j) = row \<and> colIndex (ns ! j) \<le> col
                         \<and> col < colIndex (ns ! j) + duration (ns ! j))))"
    unfolding clickedNote_def find_Some_iff by auto
qed

theorem clickedNote_first_match_witness:
  "clickedNote
     [\<lparr>id_note = ''note-1'', note_name = Some ''B1'', start = 2, duration = 3, rowIndex = 0,
        colIndex = 2, selected = False\<rparr>,
      \<lparr>id_note = ''note-2'', note_name = Some ''B1'', start = 4, duration = 1, rowIndex = 0,
        colIndex = 4, selected = True\<rparr>] 0 4
   = Some \<lparr>id_note = ''note-1'', note_name = Some ''B1'', start = 2, duration = 3, rowIndex = 0,
        colIndex = 2, selected = False\<rparr>
   \<and> clickedNote
     [\<lparr>id_note = ''note-1'', note_name = Some ''B1'', start = 2, duration = 3, rowIndex = 0,
        colIndex = 2, selected = False\<rparr>,
      \<lparr>id_note = ''note-2'', note_name = Some ''B1'', start = 4, duration = 1, rowIndex = 0,
        colIndex = 4, selected = True\<rparr>] 0 5 = None"
  using clickedNote_first_match [of
     "[\<lparr>id_note = ''note-1'', note_name = Some ''B1'', start = 2, duration = 3, rowIndex = 0,
        colIndex = 2, selected = False\<rparr>,
      \<lparr>id_note = ''note-2'', note_name = Some ''B1'', start = 4, duration = 1, rowIndex = 0,
        colIndex = 4, selected = True\<rparr>]" 0 4
     "\<lparr>id_note = ''note-1'', note_name = Some ''B1'', start = 2, duration = 3, rowIndex = 0,
        colIndex = 2, selected = False\<rparr>"]
  by (simp add: clickedNote_def)

subsection \<open>Clicking an existing note\<close>

text \<open>
  Claim C10. When a click lands on an existing note, the store keeps its length and every
  note keeps its id, pitch, start, duration, row and column; only the \<open>selected\<close> flags
  (set to whether the note's id is the clicked note's) and the selected-note reference
  change. The engine log, the column count and every other state cell are unchanged.
\<close>

theorem click_on_note_changes_selection_only:
  assumes ref: "notesCanvasRef s"
    and hit: "clickedNote (notes_state s) (cellIndex y) (cellIndex x) = Some c"
  shows "length (notes_state (handleCanvasClick x y now s)) = length (notes_state s)
    \<and> (\<forall>i < length (notes_state s).
          id_note (notes_state (handleCanvasClick x y now s) ! i) = id_note (notes_state s ! i)
        \<and> note_name (notes_state (handleCanvasClick x y now s) ! i) = note_name (notes_state s ! i)
        \<and> start (notes_state (handleCanvasClick x y now s) ! i) = start (notes_state s ! i)
        \<and> duration (notes_state (handleCanvasClick x y now s) ! i) = duration (notes_state s ! i)
        \<and> rowIndex (notes_state (handleCanvasClick x y now s) ! i) = rowIndex (notes_state s ! i)
        \<and> colIndex (notes_state (handleCanvasClick x y now s) ! i) = colIndex (notes_state s ! i)
        \<and> selected (notes_state (handleCanvasClick x y now s) ! i)
            = (id_note (notes_state s ! i) = id_note c))
    \<and> selectedNote (handleCanvasClick x y now s) = Some c
    \<and> engine (handleCanvasClick x y now s) = engine s
    \<and> numberOfColumns (handleCanvasClick x y now s) = numberOfColumns s
    \<and> activeNotes (handleCanvasClick x y now s) = activeNotes s
    \<and> synth (handleCanvasClick x y now s) = synth s
    \<and> isPlaying (handleCanvasClick x y now s) = isPlaying s
    \<and> isDragging (handleCanvasClick x y now s) = isDragging s
    \<and> notesCanvasRef (handleCanvasClick x y now s) = notesCanvasRef s"
proof -
  have eq: "handleCanvasClick x y now s =
      s\<lparr>selectedNote := Some c,
        notes_state := map (\<lambda>n. n\<lparr>selected := (id_note n = id_note c)\<rparr>) (notes_state s)\<rparr>"
    using ref hit by (simp add: handleCanvasClick_def)
  show ?thesis
    unfolding eq by simp
qed

theorem click_on_note_changes_selection_only_witness:
  "notesCanvasRef (run [Mount, CanvasClick 0 0 3, CanvasClick 0 25 7])
   \<and> clickedNote (notes_state (run [Mount, CanvasClick 0 0 3, CanvasClick 0 25 7]))
        (cellIndex 0) (cellIndex 0)
       = Some \<lparr>id_note = ''note-3'', note_name = Some ''B1'', start = 0, duration = 1,
                rowIndex = 0, colIndex = 0, selected = False\<rparr>
   \<and> notes_state (handleCanvasClick 0 0 9 (run [Mount, CanvasClick 0 0 3, CanvasClick 0 25 7]))
       = [\<lparr>id_note = ''note-3'', note_name = Some ''B1'', start = 0, duration = 1,
            rowIndex = 0, colIndex = 0, selected = True\<rparr>,
          \<lparr>id_note = ''note-7'', note_name = Some ''A#1'', start = 0, duration = 1,
            rowIndex = 1, colIndex = 0, selected = False\<rparr>]
   \<and> engine (handleCanvasClick 0 0 9 (run [Mount, CanvasClick 0 0 3, CanvasClick 0 25 7]))
       = [TriggerAttack (Some ''B1''), TriggerAttack (Some ''A#1'')]
   \<and> numberOfColumns (handleCanvasClick 0 0 9 (run [Mount, CanvasClick 0 0 3, CanvasClick 0 25 7]))
       = 64"
proof -
  let ?s = "run [Mount, CanvasClick 0 0 3, CanvasClick 0 25 7]"
  let ?c = "\<lparr>id_note = ''note-3'', note_name = Some ''B1'', start = 0, duration = 1,
                rowIndex = 0, colIndex = 0, selected = False\<rparr>"
  have ref: "notesCanvasRef ?s"
    by (simp add: run_two_notes)
  have hit: "clickedNote (notes_state ?s) (cellIndex 0) (cellIndex 0) = Some ?c"
    by (simp add: run_two_notes clickedNote_def)
  have store: "notes_state (handleCanvasClick 0 0 9 ?s)
       = [\<lparr>id_note = ''note-3'', note_name = Some ''B1'', start = 0, duration = 1,
            rowIndex = 0, colIndex = 0, selected = True\<rparr>,
          \<lparr>id_note = ''note-7'', note_name = Some ''A#1'', start = 0, duration = 1,
            rowIndex = 1, colIndex = 0, selected = False\<rparr>]"
    by (simp add: run_two_notes handleCanvasClick_def clickedNote_def)
  from click_on_note_changes_selection_only [OF ref hit, of 9]
  have "engine (handleCanvasClick 0 0 9 ?s) = engine ?s"
    and "numberOfColumns (handleCanvasClick 0 0 9 ?s) = numberOfColumns ?s"
    by simp_all
  then have "engine (handleCanvasClick 0 0 9 ?s) = [TriggerAttack (Some ''B1''), TriggerAttack (Some ''A#1'')]"
    and "numberOfColumns (handleCanvasClick 0 0 9 ?s) = 64"
    by (simp_all add: run_two_notes)
  with ref hit store show ?thesis
    by blast
qed

subsection \<open>Creating a note\<close>

text \<open>
  Claim C3, as the code has it. \<^verbatim>\<open>handleCanvasClick\<close> does not check the row. A click
  that hits no note, with the canvas attached and no drag under way, always appends one
  note: selected, of duration 1, at the cell of the pointer, with \<open>start\<close> equal to
  \<open>colIndex\<close>. Its pitch is \<open>allNotes ! row\<close> when the row is inside the lattice and
  undefined when it is not. A pointer offset inside the canvas always gives a row inside
  the lattice.
\<close>

theorem click_on_empty_cell_appends:
  assumes "notesCanvasRef s" and "\<not> isDragging s"
    and "clickedNote (notes_state s) (cellIndex y) (cellIndex x) = None"
  shows "length (notes_state (handleCanvasClick x y now s)) = Suc (length (notes_state s))
    \<and> rowIndex (last (notes_state (handleCanvasClick x y now s))) = cellIndex y
    \<and> colIndex (last (notes_state (handleCanvasClick x y now s))) = cellIndex x
    \<and> start (last (notes_state (handleCanvasClick x y now s))) = cellIndex x
    \<and> duration (last (notes_state (handleCanvasClick x y now s))) = 1
    \<and> selected (last (notes_state (handleCanvasClick x y now s)))
    \<and> (0 \<le> cellIndex y \<and> cellIndex y < int (length allNotes) \<longrightarrow>
         note_name (last (notes_state (handleCanvasClick x y now s)))
           = Some (allNotes ! nat (cellIndex y)))
    \<and> (cellIndex y < 0 \<or> int (length allNotes) \<le> cellIndex y \<longrightarrow>
         note_name (last (notes_state (handleCanvasClick x y now s))) = None)
    \<and> (0 \<le> y \<and> y < real (length allNotes) * CELL_SIZE \<longrightarrow>
         note_name (last (notes_state (handleCanvasClick x y now s)))
           = Some (allNotes ! nat (cellIndex y)))"
proof -
  have "0 \<le> y \<and> y < real (length allNotes) * CELL_SIZE \<longrightarrow>
      allNotesAt (cellIndex y) = Some (allNotes ! nat (cellIndex y))"
    unfolding cellIndex_in_canvas by (simp add: allNotesAt_def)
  with assms show ?thesis
    by (auto simp: notes_click_miss allNotesAt_def)
qed

theorem click_on_empty_cell_appends_witness:
  "notesCanvasRef (run [Mount]) \<and> \<not> isDragging (run [Mount])
   \<and> clickedNote (notes_state (run [Mount])) (cellIndex (- 1)) (cellIndex 75) = None
   \<and> length (notes_state (handleCanvasClick 75 (- 1) 3 (run [Mount]))) = 1
   \<and> rowIndex (last (notes_state (handleCanvasClick 75 (- 1) 3 (run [Mount])))) = - 1
   \<and> colIndex (last (notes_state (handleCanvasClick 75 (- 1) 3 (run [Mount])))) = 3
   \<and> note_name (last (notes_state (handleCanvasClick 75 (- 1) 3 (run [Mount])))) = None
   \<and> clickedNote (notes_state (run [Mount])) (cellIndex 25) (cellIndex 75) = None
   \<and> note_name (last (notes_state (handleCanvasClick 75 25 3 (run [Mount])))) = Some ''A#1''"
proof -
  let ?s = "run [Mount]"
  have ref: "notesCanvasRef ?s" and idle: "\<not> isDragging ?s"
    by (simp_all add: run_Mount)
  have miss: "clickedNote (notes_state ?s) (cellIndex (- 1)) (cellIndex 75) = None"
    and miss': "clickedNote (notes_state ?s) (cellIndex 25) (cellIndex 75) = None"
    by (simp_all add: run_Mount clickedNote_def)
  from click_on_empty_cell_appends [OF ref idle miss, of 3]
  have out: "length (notes_state (handleCanvasClick 75 (- 1) 3 ?s)) = 1
     \<and> rowIndex (last (notes_state (handleCanvasClick 75 (- 1) 3 ?s))) = - 1
     \<and> colIndex (last (notes_state (handleCanvasClick 75 (- 1) 3 ?s))) = 3
     \<and> note_name (last (notes_state (handleCanvasClick 75 (- 1) 3 ?s))) = None"
    by (simp add: run_Mount)
  from click_on_empty_cell_appends [OF ref idle miss', of 3]
  have "note_name (last (notes_state (handleCanvasClick 75 25 3 ?s))) = Some ''A#1''"
    by (simp add: allNotes_eq)
  with ref idle miss miss' out show ?thesis
    by simp
qed

text \<open>
  Claim C3 as stated fails: a click one cell below the last row, on the empty store,
  is not ignored. It stores a note in row 60 whose pitch is undefined, selects it and
  calls \<^verbatim>\<open>triggerAttack\<close> with the undefined pitch.
\<close>

theorem click_out_of_range_creates_note:
  "cellIndex 1500 = 60 \<and> length allNotes = 60 \<and> notes_state (run [Mount]) = []
   \<and> notes_state (handleCanvasClick 0 1500 3 (run [Mount]))
       = [\<lparr>id_note = ''note-3'', note_name = None, start = 0, duration = 1, rowIndex = 60,
            colIndex = 0, selected = True\<rparr>]
   \<and> selectedNote (handleCanvasClick 0 1500 3 (run [Mount]))
       = Some \<lparr>id_note = ''note-3'', note_name = None, start = 0, duration = 1, rowIndex = 60,
            colIndex = 0, selected = True\<rparr>
   \<and> engine (handleCanvasClick 0 1500 3 (run [Mount])) = [TriggerAttack None]"
  by (simp add: run_Mount cellIndex_1500 length_allNotes handleCanvasClick_def clickedNote_def
      playNote_def allNotesAt_def toString.simps digit_def Let_def)

subsection \<open>Selection\<close>

text \<open>
  Claim C4, as the code has it. In every state the component reaches in which the ids
  of the stored notes are pairwise distinct, at most one note is selected; the ids are
  distinct whenever no two clicks of the session saw the same \<^verbatim>\<open>Date.now()\<close>. And right
  after a click creates a note, exactly one entry of the store is selected: the last
  one, which is the new note, with the id made from \<^verbatim>\<open>Date.now()\<close> and the cell of the
  pointer; the selected-note reference is that note.
\<close>

theorem one_selected_with_distinct_ids:
  "(distinct (map id_note (notes_state (run es))) \<longrightarrow>
      length (filter selected (notes_state (run es))) \<le> 1)
   \<and> (distinct (clickTimes es) \<longrightarrow> distinct (map id_note (notes_state (run es))))
   \<and> (notesCanvasRef s \<and> \<not> isDragging s
        \<and> clickedNote (notes_state s) (cellIndex y) (cellIndex x) = None \<longrightarrow>
      length (notes_state (handleCanvasClick x y now s)) = Suc (length (notes_state s))
      \<and> filter selected (notes_state (handleCanvasClick x y now s))
          = [last (notes_state (handleCanvasClick x y now s))]
      \<and> id_note (last (notes_state (handleCanvasClick x y now s))) = ''note-'' @ toString now
      \<and> rowIndex (last (notes_state (handleCanvasClick x y now s))) = cellIndex y
      \<and> colIndex (last (notes_state (handleCanvasClick x y now s))) = cellIndex x
      \<and> selectedNote (handleCanvasClick x y now s)
          = Some (last (notes_state (handleCanvasClick x y now s))))"
proof (intro conjI impI)
  assume "distinct (map id_note (notes_state (run es)))"
  then show "length (filter selected (notes_state (run es))) \<le> 1"
    by (rule selected_run)
next
  assume "distinct (clickTimes es)"
  then show "distinct (map id_note (notes_state (run es)))"
    by (simp add: ids_run)
next
  assume a: "notesCanvasRef s \<and> \<not> isDragging s
        \<and> clickedNote (notes_state s) (cellIndex y) (cellIndex x) = None"
  then have eq: "notes_state (handleCanvasClick x y now s)
     = map (\<lambda>n. n\<lparr>selected := False\<rparr>) (notes_state s)
       @ [\<lparr>id_note = ''note-'' @ toString now, note_name = allNotesAt (cellIndex y),
           start = cellIndex x, duration = 1, rowIndex = cellIndex y, colIndex = cellIndex x,
           selected = True\<rparr>]"
    by (simp add: notes_click_miss)
  show "length (notes_state (handleCanvasClick x y now s)) = Suc (length (notes_state s))"
    unfolding eq by simp
  show "filter selected (notes_state (handleCanvasClick x y now s))
          = [last (notes_state (handleCanvasClick x y now s))]"
    unfolding eq by (simp add: filter_selected_deselect)
  show "id_note (last (notes_state (handleCanvasClick x y now s))) = ''note-'' @ toString now"
    unfolding eq by simp
  show "rowIndex (last (notes_state (handleCanvasClick x y now s))) = cellIndex y"
    unfolding eq by simp
  show "colIndex (last (notes_state (handleCanvasClick x y now s))) = cellIndex x"
    unfolding eq by simp
  show "selectedNote (handleCanvasClick x y now s)
          = Some (last (notes_state (handleCanvasClick x y now s)))"
    using a by (simp add: handleCanvasClick_def playNote_def Let_def)
qed

theorem one_selected_with_distinct_ids_witness:
  "distinct (clickTimes [Mount, CanvasClick 0 0 3, CanvasClick 0 25 7])
   \<and> distinct (map id_note (notes_state (run [Mount, CanvasClick 0 0 3, CanvasClick 0 25 7])))
   \<and> length (filter selected (notes_state (run [Mount, CanvasClick 0 0 3, CanvasClick 0 25 7]))) \<le> 1
   \<and> notesCanvasRef (run [Mount, CanvasClick 75 0 3])
   \<and> \<not> isDragging (run [Mount, CanvasClick 75 0 3])
   \<and> clickedNote (notes_state (run [Mount, CanvasClick 75 0 3])) (cellIndex 25) (cellIndex 0) = None
   \<and> filter selected (notes_state (handleCanvasClick 0 25 7 (run [Mount, CanvasClick 75 0 3])))
       = [\<lparr>id_note = ''note-7'', note_name = Some ''A#1'', start = 0, duration = 1,
            rowIndex = 1, colIndex = 0, selected = True\<rparr>]"
proof -
  let ?es = "[Mount, CanvasClick 0 0 3, CanvasClick 0 25 7]"
  let ?s = "run [Mount, CanvasClick 75 0 3]"
  have t: "distinct (clickTimes ?es)"
    by simp
  from one_selected_with_distinct_ids [of ?es] t
  have d: "distinct (map id_note (notes_state (run ?es)))"
    by simp
  have pre: "notesCanvasRef ?s \<and> \<not> isDragging ?s
      \<and> clickedNote (notes_state ?s) (cellIndex 25) (cellIndex 0) = None"
    by (simp add: run_one_note clickedNote_def)
  have new: "last (notes_state (handleCanvasClick 0 25 7 ?s))
      = \<lparr>id_note = ''note-7'', note_name = Some ''A#1'', start = 0, duration = 1,
            rowIndex = 1, colIndex = 0, selected = True\<rparr>"
    using pre by (simp add: notes_click_miss allNotesAt_1 toString.simps digit_def)
  from one_selected_with_distinct_ids [of ?es ?s 25 0 7] t d pre new show ?thesis
    by simp
qed

text \<open>
  Claim C4 as stated fails: without distinct ids its first half does not hold. Two
  notes created at the same value of \<^verbatim>\<open>Date.now()\<close> share the id \<open>note-3\<close>; a later
  click on the first one selects by id, and both are selected.
\<close>

theorem two_selected_with_equal_ids:
  "filter selected (notes_state (run [Mount, CanvasClick 0 0 3, CanvasClick 0 25 3, CanvasClick 0 0 7]))
   = [\<lparr>id_note = ''note-3'', note_name = Some ''B1'', start = 0, duration = 1,
        rowIndex = 0, colIndex = 0, selected = True\<rparr>,
      \<lparr>id_note = ''note-3'', note_name = Some ''A#1'', start = 0, duration = 1,
        rowIndex = 1, colIndex = 0, selected = True\<rparr>]
   \<and> \<not> length (filter selected
        (notes_state (run [Mount, CanvasClick 0 0 3, CanvasClick 0 25 3, CanvasClick 0 0 7]))) \<le> 1"
proof -
  have "run [Mount, CanvasClick 0 0 3, CanvasClick 0 25 3, CanvasClick 0 0 7]
      = handleCanvasClick 0 0 7 (run [Mount, CanvasClick 0 0 3, CanvasClick 0 25 3])"
    using run_snoc [of "[Mount, CanvasClick 0 0 3, CanvasClick 0 25 3]" "CanvasClick 0 0 7"]
    by simp
  then show ?thesis
    by (simp add: run_equal_ids handleCanvasClick_def clickedNote_def)
qed

subsection \<open>Dragging\<close>




text \<open>
  Claim C5, as the code has it. The note being dragged is the selected-note reference.
  Pointer-up and pointer-leave both end the drag by resetting \<open>isDragging\<close> and keep the
  reference. While no drag is under way a pointer move changes nothing, so the
  reference is not used then; and in every state the component reaches, a drag under
  way has a reference.
\<close>

theorem reference_kept_after_drag:
  "\<not> isDragging (dispatch s CanvasMouseUp) \<and> \<not> isDragging (dispatch s CanvasMouseLeave)
   \<and> selectedNote (dispatch s CanvasMouseUp) = selectedNote s
   \<and> selectedNote (dispatch s CanvasMouseLeave) = selectedNote s
   \<and> (\<not> isDragging s \<longrightarrow> handleMouseMove x y s = s)
   \<and> (isDragging (run es) \<longrightarrow> selectedNote (run es) \<noteq> None)"
proof (intro conjI)
  show "\<not> isDragging s \<longrightarrow> handleMouseMove x y s = s"
    by (simp add: handleMouseMove_def split: option.split)
  show "isDragging (run es) \<longrightarrow> selectedNote (run es) \<noteq> None"
    by (rule dragging_run)
qed (simp_all add: handleMouseUp_def)

theorem reference_kept_after_drag_witness:
  "isDragging (run [Mount, CanvasClick 0 0 3, CanvasClick 0 25 7, CanvasMouseDown 0 0])
   \<and> selectedNote (run [Mount, CanvasClick 0 0 3, CanvasClick 0 25 7, CanvasMouseDown 0 0]) \<noteq> None
   \<and> \<not> isDragging (run [Mount, CanvasClick 0 0 3, CanvasClick 0 25 7])
   \<and> handleMouseMove 250 25 (run [Mount, CanvasClick 0 0 3, CanvasClick 0 25 7])
       = run [Mount, CanvasClick 0 0 3, CanvasClick 0 25 7]"
proof -
  have drag: "isDragging (run [Mount, CanvasClick 0 0 3, CanvasClick 0 25 7, CanvasMouseDown 0 0])"
    by (simp add: run_dragging)
  have idle: "\<not> isDragging (run [Mount, CanvasClick 0 0 3, CanvasClick 0 25 7])"
    by (simp add: run_two_notes)
  from reference_kept_after_drag
         [of "run [Mount, CanvasClick 0 0 3, CanvasClick 0 25 7]" 250 25
             "[Mount, CanvasClick 0 0 3, CanvasClick 0 25 7, CanvasMouseDown 0 0]"]
    drag idle
  show ?thesis
    by simp
qed

text \<open>
  Claim C5 as stated fails: after a pointer-down on a note, pointer-up as well as
  pointer-leave end the drag with the reference still defined.
\<close>

theorem reference_defined_after_drag:
  "\<not> isDragging (dispatch (run [Mount, CanvasClick 0 0 3, CanvasClick 0 25 7, CanvasMouseDown 0 0])
        CanvasMouseUp)
   \<and> selectedNote (dispatch (run [Mount, CanvasClick 0 0 3, CanvasClick 0 25 7, CanvasMouseDown 0 0])
        CanvasMouseUp)
      = Some \<lparr>id_note = ''note-3'', note_name = Some ''B1'', start = 0, duration = 1,
               rowIndex = 0, colIndex = 0, selected = False\<rparr>
   \<and> \<not> isDragging (dispatch (run [Mount, CanvasClick 0 0 3, CanvasClick 0 25 7, CanvasMouseDown 0 0])
        CanvasMouseLeave)
   \<and> selectedNote (dispatch (run [Mount, CanvasClick 0 0 3, CanvasClick 0 25 7, CanvasMouseDown 0 0])
        CanvasMouseLeave)
      = Some \<lparr>id_note = ''note-3'', note_name = Some ''B1'', start = 0, duration = 1,
               rowIndex = 0, colIndex = 0, selected = False\<rparr>"
  by (simp add: run_dragging handleMouseUp_def)

text \<open>
  Claim C1 does not hold of the code. A note created in column 3 and dragged to column
  10 has \<open>colIndex = 10\<close> and still \<open>start = 3\<close>: \<^verbatim>\<open>handleMouseMove\<close> rewrites
  \<open>colIndex\<close>, \<open>rowIndex\<close> and the pitch, never \<open>start\<close>. Playback reads \<open>start\<close>, so the
  note is scheduled at \<open>now + 0.75\<close>, the time of column 3.
\<close>

theorem drag_leaves_start_behind:
  "notes_state (handleMouseMove 250 0 (handleMouseDown 75 0 (run [Mount, CanvasClick 75 0 3])))
   = [\<lparr>id_note = ''note-3'', note_name = Some ''B1'', start = 3, duration = 1, rowIndex = 0,
        colIndex = 10, selected = True\<rparr>]
   \<and> engine (playRecorded 0
        (handleMouseMove 250 0 (handleMouseDown 75 0 (run [Mount, CanvasClick 75 0 3]))))
     = [TriggerAttack (Some ''B1''), TransportCancel, TransportStop, TransportPosition 0,
        TriggerAttackRelease (Some ''B1'') 0.25 0.75, TransportSchedule (Num 1), TransportStart]"
  by (simp add: run_one_note handleMouseDown_def handleMouseMove_def clickedNote_def
      playRecorded_def allNotesAt_0 Math_max_def Let_def)

subsection \<open>Playback\<close>

text \<open>
  Claim C6. \<open>playRecorded\<close> leaves a playing session as it is: nothing is added to the
  engine log and no state changes. Hence two calls in a row from a stopped session with
  a synth add to the log exactly one \<open>TriggerAttackRelease\<close> per note, one scheduled
  callback and one transport start: those of the first call.
\<close>

theorem playRecorded_while_playing:
  "(isPlaying s \<longrightarrow> playRecorded now' s = s)
   \<and> (synth s \<and> \<not> isPlaying s \<longrightarrow>
        playRecorded now' (playRecorded now s) = playRecorded now s
      \<and> filter isAttackRelease
           (drop (length (engine s)) (engine (playRecorded now' (playRecorded now s))))
         = map (\<lambda>n. TriggerAttackRelease (note_name n) (real_of_int (duration n) * 0.25)
                      (now + real_of_int (start n) * 0.25)) (notes_state s)
      \<and> length (filter isSchedule
           (drop (length (engine s)) (engine (playRecorded now' (playRecorded now s))))) = 1
      \<and> length (filter (\<lambda>c. c = TransportStart)
           (drop (length (engine s)) (engine (playRecorded now' (playRecorded now s))))) = 1)"
proof (intro conjI impI)
  assume "isPlaying s"
  then show "playRecorded now' s = s"
    by (simp add: playRecorded_def)
next
  assume a: "synth s \<and> \<not> isPlaying s"
  have playing: "isPlaying (playRecorded now s)"
    using a by (simp add: playRecorded_def Let_def)
  then show again: "playRecorded now' (playRecorded now s) = playRecorded now s"
    by (simp add: playRecorded_def)
  have log: "drop (length (engine s)) (engine (playRecorded now s)) =
      [TransportCancel, TransportStop, TransportPosition 0]
      @ map (\<lambda>n. TriggerAttackRelease (note_name n) (real_of_int (duration n) * 0.25)
                      (now + real_of_int (start n) * 0.25)) (notes_state s)
      @ [TransportSchedule (times_quarter
           (Math_max (map (\<lambda>n. real_of_int (start n + duration n)) (notes_state s)))),
         TransportStart]"
    using a by (simp add: playRecorded_def Let_def)
  show "filter isAttackRelease
           (drop (length (engine s)) (engine (playRecorded now' (playRecorded now s))))
         = map (\<lambda>n. TriggerAttackRelease (note_name n) (real_of_int (duration n) * 0.25)
                      (now + real_of_int (start n) * 0.25)) (notes_state s)"
    unfolding again log by (simp add: filter_map comp_def)
  show "length (filter isSchedule
           (drop (length (engine s)) (engine (playRecorded now' (playRecorded now s))))) = 1"
    unfolding again log by (simp add: filter_map comp_def)
  show "length (filter (\<lambda>c. c = TransportStart)
           (drop (length (engine s)) (engine (playRecorded now' (playRecorded now s))))) = 1"
    unfolding again log by (simp add: filter_map comp_def)
qed

theorem playRecorded_while_playing_witness:
  "synth (run [Mount, CanvasClick 75 0 3]) \<and> \<not> isPlaying (run [Mount, CanvasClick 75 0 3])
   \<and> isPlaying (playRecorded 10 (run [Mount, CanvasClick 75 0 3]))
   \<and> playRecorded 20 (playRecorded 10 (run [Mount, CanvasClick 75 0 3]))
       = playRecorded 10 (run [Mount, CanvasClick 75 0 3])
   \<and> engine (playRecorded 20 (playRecorded 10 (run [Mount, CanvasClick 75 0 3])))
       = [TriggerAttack (Some ''B1''), TransportCancel, TransportStop, TransportPosition 0,
          TriggerAttackRelease (Some ''B1'') 0.25 10.75, TransportSchedule (Num 1),
          TransportStart]"
proof -
  let ?s = "run [Mount, CanvasClick 75 0 3]"
  have pre: "synth ?s \<and> \<not> isPlaying ?s"
    by (simp add: run_one_note)
  have playing: "isPlaying (playRecorded 10 ?s)"
    by (simp add: run_one_note playRecorded_def Let_def)
  from playRecorded_while_playing [of "playRecorded 10 ?s" 20] playing
  have again: "playRecorded 20 (playRecorded 10 ?s) = playRecorded 10 ?s"
    by simp
  have "engine (playRecorded 10 ?s)
       = [TriggerAttack (Some ''B1''), TransportCancel, TransportStop, TransportPosition 0,
          TriggerAttackRelease (Some ''B1'') 0.25 10.75, TransportSchedule (Num 1),
          TransportStart]"
    by (simp add: run_one_note playRecorded_def Let_def Math_max_def)
  with pre playing again show ?thesis
    by simp
qed

text \<open>
  Claim C7. With a synth, a stopped session and a store of one note of pitch \<open>C4\<close>,
  start 0 and duration 2, \<open>playRecorded\<close> resets the transport, issues the single call
  \<open>TriggerAttackRelease C4 0.5 (now + 0)\<close>, schedules the callback at 0.5 and starts the
  transport; the session is playing, and the callback stops it.
\<close>

theorem playRecorded_single_note:
  assumes "synth s" and "\<not> isPlaying s" and "notes_state s = [n]"
    and "note_name n = Some ''C4''" and "start n = 0" and "duration n = 2"
  shows "engine (playRecorded now s)
       = engine s @ [TransportCancel, TransportStop, TransportPosition 0,
                     TriggerAttackRelease (Some ''C4'') 0.5 (now + 0),
                     TransportSchedule (Num 0.5), TransportStart]
     \<and> isPlaying (playRecorded now s)
     \<and> \<not> isPlaying (scheduledCallback (playRecorded now s))"
  using assms by (simp add: playRecorded_def scheduledCallback_def Let_def Math_max_def)

theorem playRecorded_single_note_witness:
  "engine (playRecorded 0
      (initialState\<lparr>synth := True, notesCanvasRef := True,
         notes_state := [\<lparr>id_note = ''note-3'', note_name = Some ''C4'', start = 0, duration = 2,
                           rowIndex = 47, colIndex = 0, selected = True\<rparr>]\<rparr>))
    = [TransportCancel, TransportStop, TransportPosition 0,
       TriggerAttackRelease (Some ''C4'') 0.5 0, TransportSchedule (Num 0.5), TransportStart]"
  using playRecorded_single_note [of
      "initialState\<lparr>synth := True, notesCanvasRef := True,
         notes_state := [\<lparr>id_note = ''note-3'', note_name = Some ''C4'', start = 0, duration = 2,
                           rowIndex = 47, colIndex = 0, selected = True\<rparr>]\<rparr>"
      "\<lparr>id_note = ''note-3'', note_name = Some ''C4'', start = 0, duration = 2,
                           rowIndex = 47, colIndex = 0, selected = True\<rparr>" 0]
  by (simp add: initialState_def)

text \<open>
  Claim C2 does not hold of the code. On the empty store \<open>playRecorded\<close> does not
  return early: the session becomes playing, the maximum of no numbers is taken, and
  the callback that would stop the session is scheduled at \<^verbatim>\<open>-Infinity\<close>. No
  \<open>TriggerAttackRelease\<close> is issued, but the transport is reset and started.
\<close>

theorem playRecorded_empty_store:
  "notes_state (run [Mount]) = []
   \<and> isPlaying (playRecorded now (run [Mount]))
   \<and> engine (playRecorded now (run [Mount]))
       = [TransportCancel, TransportStop, TransportPosition 0, TransportSchedule NegInfinity,
          TransportStart]"
  by (simp add: run_Mount playRecorded_def Math_max_def Let_def)

end
